theory Spec2Isabelle
  imports Main "HOL-Library.Word"
begin

section \<open>The project item tree of novelWriter (novelwriter/core/tree.py)\<close>

text \<open>
  The development embeds class \<open>NWTree\<close>: the item store (\<open>_items\<close>), the node layer
  (\<open>_model\<close>, \<open>_nodes\<close>), the trash handle and the changed flag, with the methods
  \<open>clear\<close>, \<open>create\<close>, \<open>append\<close>, \<open>pack\<close>, \<open>unpack\<close>, \<open>buildModel\<close>, \<open>_buildTree\<close>,
  \<open>checkConsistency\<close>, \<open>updateItemData\<close>, \<open>isTrash\<close>, \<open>findRoot\<close>, \<open>__getitem__\<close>,
  \<open>__delitem__\<close> and \<open>_makeHandle\<close>.
\<close>

subsection \<open>Enumerations and the item record\<close>

text \<open>
  Modelled from the spec: module \<open>novelwriter.enum\<close> is not among the source files. The
  members below are the ones \<open>tree.py\<close> and the spec name (\<open>ROOT\<close>, \<open>FILE\<close>, \<open>NO_CLASS\<close>,
  \<open>NOVEL\<close>, \<open>TRASH\<close>, \<open>DOCUMENT\<close>, \<open>NOTE\<close>) and a few siblings.
\<close>

datatype nwItemType = NO_TYPE | ROOT | FOLDER | FILE

datatype nwItemClass = NO_CLASS | NOVEL | PLOT | CHARACTER | WORLD | ARCHIVE | TRASH

datatype nwItemLayout = NO_LAYOUT | DOCUMENT | NOTE

text \<open>
  Modelled from the spec: class \<open>NWItem\<close> (\<open>novelwriter.core.item\<close>) is not among the
  source files. The spec's item is a record of handle, parent handle, cached root handle,
  type, class, layout, name and word count; a setter stores its argument in the field it
  names, and \<open>isRootType\<close> tests the type against \<open>ROOT\<close>.
\<close>

record NWItem =
  itemHandle :: string
  itemParent :: "string option"
  itemRoot :: "string option"
  itemType :: nwItemType
  itemClass :: nwItemClass
  itemLayout :: nwItemLayout
  itemName :: string
  wordCount :: int

definition isRootType :: "NWItem \<Rightarrow> bool" where
  "isRootType item = (itemType item = ROOT)"

definition setParent :: "string option \<Rightarrow> NWItem \<Rightarrow> NWItem" where
  "setParent p item = item\<lparr>itemParent := p\<rparr>"

definition setRoot :: "string option \<Rightarrow> NWItem \<Rightarrow> NWItem" where
  "setRoot r item = item\<lparr>itemRoot := r\<rparr>"

subsection \<open>Python dictionaries\<close>

text \<open>
  A \<open>dict\<close> keeps its keys in insertion order, and the tree's loops depend on that order,
  so a dictionary is an association list with distinct keys: \<open>map_of d k\<close> is \<open>d.get(k)\<close>,
  \<open>k \<in> fst ` set d\<close> is \<open>k in d\<close>, and \<open>d[k] = v\<close> replaces the value in place when the
  key exists and appends the pair otherwise.
\<close>

fun dict_set :: "('k \<times> 'v) list \<Rightarrow> 'k \<Rightarrow> 'v \<Rightarrow> ('k \<times> 'v) list" where
  "dict_set [] k v = [(k, v)]"
| "dict_set ((k', v') # d) k v =
     (if k' = k then (k, v) # d else (k', v') # dict_set d k v)"

text \<open>
  An item object is shared between the store and whoever holds a reference to it; the
  reference is the key under which \<open>_items\<close> holds the object. A method called on the
  object is an update of the store's entry.
\<close>

fun dict_update :: "'k \<Rightarrow> ('v \<Rightarrow> 'v) \<Rightarrow> ('k \<times> 'v) list \<Rightarrow> ('k \<times> 'v) list" where
  "dict_update k f [] = []"
| "dict_update k f ((k', v) # d) =
     (if k' = k then (k', f v) # d else (k', v) # dict_update k f d)"

subsection \<open>The node layer\<close>

text \<open>
  Modelled from the spec: \<open>ProjectModel\<close> and \<open>ProjectNode\<close> (\<open>novelwriter.core.itemmodel\<close>)
  are not among the source files. By the spec a node wraps one item and holds an ordered
  sequence of child nodes; \<open>addChild\<close> appends to it; \<open>allChildren\<close> is the pre-order
  traversal of everything below a node; a fresh model has a synthetic root without
  children. A node holds its item by reference (the item's key in \<open>_items\<close>). The synthetic
  root is the list of its children, and a reference to a node object is the position of
  the node below the synthetic root: the list of child indices that leads to it.
\<close>

datatype ProjectNode = ProjectNode (nodeItem: string) (children: "ProjectNode list")

type_synonym node_ref = "nat list"

fun allChildren :: "ProjectNode list \<Rightarrow> ProjectNode list" where
  "allChildren [] = []"
| "allChildren (ProjectNode k cs # ns) = ProjectNode k cs # allChildren cs @ allChildren ns"

fun childrenAt :: "node_ref \<Rightarrow> ProjectNode list \<Rightarrow> ProjectNode list option" where
  "childrenAt [] ns = Some ns"
| "childrenAt (i # p) ns =
     (if i < length ns then childrenAt p (children (ns ! i)) else None)"

fun addChild :: "node_ref \<Rightarrow> ProjectNode \<Rightarrow> ProjectNode list \<Rightarrow> ProjectNode list" where
  "addChild [] node ns = ns @ [node]"
| "addChild (i # p) node ns =
     (if i < length ns
      then ns[i := ProjectNode (nodeItem (ns ! i)) (addChild p node (children (ns ! i)))]
      else ns)"

subsection \<open>The tree object\<close>

record NWTree =
  model_root :: "ProjectNode list"
  tree_items :: "(string \<times> NWItem) list"
  tree_nodes :: "(string \<times> node_ref) list"
  tree_trash :: "string option"
  tree_changed :: bool

definition MAX_DEPTH :: nat where
  "MAX_DEPTH = 1000"

datatype error = RecursionError | AssertionError

definition init :: NWTree where
  "init = \<lparr>model_root = [], tree_items = [], tree_nodes = [], tree_trash = None,
           tree_changed = False\<rparr>"

definition clear :: "NWTree \<Rightarrow> NWTree" where
  "clear s = s\<lparr>model_root := [], tree_items := [], tree_nodes := [], tree_trash := None,
              tree_changed := False\<rparr>"

definition handles :: "NWTree \<Rightarrow> string list" where
  "handles s = map fst (tree_items s)"

text \<open>\<open>create\<close>: the body is commented out in the source; what runs is \<open>return None\<close>.\<close>

definition create ::
  "NWTree \<Rightarrow> string \<Rightarrow> string option \<Rightarrow> nwItemType \<Rightarrow> nwItemClass \<Rightarrow> string option \<times> NWTree"
where
  "create s label parent itemType' itemClass' = (None, s)"

text \<open>
  \<open>append\<close> (named \<open>append_item\<close> here, \<open>append\<close> being the list operation of HOL): the body
  is commented out in the source; what runs is \<open>return True\<close>.
\<close>

definition append_item :: "NWTree \<Rightarrow> NWItem \<Rightarrow> bool \<times> NWTree" where
  "append_item s nwItem = (True, s)"

text \<open>\<open>__delitem__\<close>: the body is commented out in the source; what runs is \<open>return\<close>.\<close>

definition delitem :: "NWTree \<Rightarrow> string \<Rightarrow> NWTree" where
  "delitem s tHandle = s"

text \<open>\<open>__getitem__\<close>: \<open>None\<close> and the empty string are falsy.\<close>

definition getitem :: "NWTree \<Rightarrow> string option \<Rightarrow> NWItem option" where
  "getitem s tHandle =
     (case tHandle of
        None \<Rightarrow> None
      | Some h \<Rightarrow>
          if h \<noteq> [] \<and> h \<in> fst ` set (tree_items s) then map_of (tree_items s) h else None)"

definition isTrash :: "NWTree \<Rightarrow> string \<Rightarrow> bool" where
  "isTrash s tHandle =
     (case getitem s (Some tHandle) of
        None \<Rightarrow> True
      | Some tItem \<Rightarrow>
          if itemClass tItem = TRASH then True
          else (case tree_trash s of
                  None \<Rightarrow> False
                | Some t \<Rightarrow>
                    if tHandle = t then True
                    else if itemParent tItem = Some t then True
                    else if itemRoot tItem = Some t then True
                    else False))"

text \<open>
  \<open>unpack\<close>: \<open>NWItem.unpack\<close> is not among the source files, so the function that turns
  one persisted record into an item, or rejects it, is the parameter \<open>item_unpack\<close>.
\<close>

fun unpack_loop :: "('r \<Rightarrow> NWItem option) \<Rightarrow> 'r list \<Rightarrow> NWTree \<Rightarrow> NWTree" where
  "unpack_loop item_unpack [] s = s"
| "unpack_loop item_unpack (r # data) s =
     (case item_unpack r of
        None \<Rightarrow> unpack_loop item_unpack data s
      | Some nwItem \<Rightarrow>
          unpack_loop item_unpack data
            (s\<lparr>tree_items := dict_set (tree_items s) (itemHandle nwItem) nwItem,
               tree_trash := (if itemClass nwItem = TRASH then Some (itemHandle nwItem)
                              else tree_trash s)\<rparr>))"

definition unpack :: "('r \<Rightarrow> NWItem option) \<Rightarrow> 'r list \<Rightarrow> NWTree \<Rightarrow> NWTree" where
  "unpack item_unpack data s = unpack_loop item_unpack data (clear s)"

text \<open>
  \<open>pack\<close>: \<open>NWItem.pack\<close> is the parameter \<open>item_pack\<close>. A node's item is read through the
  store; nodes are only made from items of the store and only \<open>clear\<close> removes items, so
  the lookup finds the item in every state the methods reach.
\<close>

definition pack :: "(NWItem \<Rightarrow> 'r) \<Rightarrow> NWTree \<Rightarrow> 'r list" where
  "pack item_pack s =
     List.map_filter (\<lambda>node. map_option item_pack (map_of (tree_items s) (nodeItem node)))
       (allChildren (model_root s))"

subsection \<open>The hierarchy builder\<close>

text \<open>
  \<open>_buildTree\<close>: one pass over the working set \<open>items\<close>. The loop body reads the item of
  the pair at hand; an item is changed (\<open>setParent(None)\<close>) only at the moment it leaves
  the working set, so the pair's copy and the store's object agree whenever the copy is
  read. The new node's reference is the position \<open>addChild\<close> gives it: behind the
  children its parent already has. A node that \<open>_nodes.get\<close> finds counts as true in
  \<open>if parent := ...\<close>, as the spec's builder has it (the parent already has an attached
  node).
\<close>

definition childCount :: "node_ref \<Rightarrow> ProjectNode list \<Rightarrow> nat" where
  "childCount p ns = (case childrenAt p ns of None \<Rightarrow> 0 | Some cs \<Rightarrow> length cs)"

text \<open>\<open>if pHandle := item.itemParent\<close>: \<open>None\<close> and the empty string are falsy.\<close>

definition truthy :: "string option \<Rightarrow> string option" where
  "truthy h = (case h of None \<Rightarrow> None | Some k \<Rightarrow> if k \<noteq> [] then Some k else None)"

fun buildTree_step ::
  "(string \<times> NWItem) list \<Rightarrow> string \<times> NWItem \<Rightarrow> (string \<times> NWItem) list \<times> NWTree \<Rightarrow>
   (string \<times> NWItem) list \<times> NWTree"
where
  "buildTree_step items (handle, item) (remains, s) =
     (case truthy (itemParent item) of
        Some pHandle \<Rightarrow>
          (case map_of (tree_nodes s) pHandle of
             Some parent \<Rightarrow>
               (remains,
                s\<lparr>model_root := addChild parent (ProjectNode handle []) (model_root s),
                  tree_nodes := dict_set (tree_nodes s) handle
                                  (parent @ [childCount parent (model_root s)])\<rparr>)
           | None \<Rightarrow>
               if pHandle \<in> fst ` set items
               then (dict_set remains handle item, s)
               else (remains,
                     s\<lparr>tree_items := dict_update handle (setParent None) (tree_items s)\<rparr>))
      | None \<Rightarrow>
          if isRootType item then
            (remains,
             s\<lparr>model_root := addChild [] (ProjectNode handle []) (model_root s),
               tree_nodes := dict_set (tree_nodes s) handle [childCount [] (model_root s)]\<rparr>)
          else (remains, s))"

fun buildTree_loop ::
  "(string \<times> NWItem) list \<Rightarrow> (string \<times> NWItem) list \<Rightarrow> (string \<times> NWItem) list \<times> NWTree \<Rightarrow>
   (string \<times> NWItem) list \<times> NWTree"
where
  "buildTree_loop items [] acc = acc"
| "buildTree_loop items (e # es) acc = buildTree_loop items es (buildTree_step items e acc)"

definition buildTree :: "(string \<times> NWItem) list \<Rightarrow> NWTree \<Rightarrow> (string \<times> NWItem) list \<times> NWTree" where
  "buildTree items s = buildTree_loop items items ([], s)"

text \<open>
  \<open>buildModel\<close>: at most 999 passes; the \<open>else\<close> of the \<open>for\<close> runs when no pass left the
  working set empty, and clears the parent of every item still in it.
\<close>

fun buildModel_loop :: "nat \<Rightarrow> (string \<times> NWItem) list \<Rightarrow> NWTree \<Rightarrow> NWTree" where
  "buildModel_loop 0 later s =
     s\<lparr>tree_items := fold (\<lambda>e. dict_update (fst e) (setParent None)) later (tree_items s)\<rparr>"
| "buildModel_loop (Suc n) later s =
     (case buildTree later s of
        (later', s') \<Rightarrow> if length later' = 0 then s' else buildModel_loop n later' s')"

definition buildModel :: "NWTree \<Rightarrow> NWTree" where
  "buildModel s = buildModel_loop 999 (tree_items s) s"

subsection \<open>Queries\<close>

definition nodeItemOf :: "NWTree \<Rightarrow> ProjectNode \<Rightarrow> NWItem option" where
  "nodeItemOf s node = map_of (tree_items s) (nodeItem node)"

definition findRoot :: "NWTree \<Rightarrow> nwItemClass option \<Rightarrow> string option" where
  "findRoot s itemClass' =
     (case List.find (\<lambda>node. case nodeItemOf s node of
                               None \<Rightarrow> False
                             | Some item \<Rightarrow> Some (itemClass item) = itemClass')
             (model_root s) of
        None \<Rightarrow> None
      | Some node \<Rightarrow> map_option itemHandle (nodeItemOf s node))"

text \<open>
  \<open>updateItemData\<close>: the \<open>for\<close> over \<open>range(MAX_DEPTH)\<close> walks up from the item; its \<open>else\<close>
  raises. \<open>NWItem.setClassDefaults\<close> is not among the source files: it is the parameter
  \<open>setClassDefaults\<close>, applied to the item after \<open>setRoot\<close>.
\<close>

fun updateItemData_loop ::
  "nat \<Rightarrow> NWTree \<Rightarrow> NWItem \<Rightarrow> error + NWItem option"
where
  "updateItemData_loop 0 s iItem = Inl RecursionError"
| "updateItemData_loop (Suc n) s iItem =
     (case itemParent iItem of
        None \<Rightarrow> Inr (Some iItem)
      | Some p \<Rightarrow>
          (case getitem s (Some p) of
             None \<Rightarrow> Inr None
           | Some iItem' \<Rightarrow> updateItemData_loop n s iItem'))"

definition updateItemData ::
  "(nwItemClass \<Rightarrow> NWItem \<Rightarrow> NWItem) \<Rightarrow> NWTree \<Rightarrow> string \<Rightarrow> error + bool \<times> NWTree"
where
  "updateItemData setClassDefaults s tHandle =
     (case getitem s (Some tHandle) of
        None \<Rightarrow> Inr (False, s)
      | Some tItem \<Rightarrow>
          (case updateItemData_loop MAX_DEPTH s tItem of
             Inl e \<Rightarrow> Inl e
           | Inr None \<Rightarrow> Inr (False, s)
           | Inr (Some iItem) \<Rightarrow>
               Inr (True,
                    s\<lparr>tree_items :=
                        dict_update tHandle
                          (\<lambda>t. setClassDefaults (itemClass iItem)
                                 (setRoot (Some (itemHandle iItem)) t))
                          (tree_items s)\<rparr>)))"

subsection \<open>The consistency checker\<close>

text \<open>
  The storage collaborator is a parameter: \<open>scanContent\<close> lists the content units in the
  order the set of them is iterated, and \<open>getMeta\<close> gives what \<open>getDocument(cHandle)\<close>
  reports after \<open>readDocument\<close>: name, parent, class and layout, the last three optional.
\<close>

type_synonym meta = "string \<times> string option \<times> nwItemClass option \<times> nwItemLayout option"

fun check_loop ::
  "(nwItemClass \<Rightarrow> NWItem \<Rightarrow> NWItem) \<Rightarrow> string list \<Rightarrow> string list \<times> NWTree \<Rightarrow>
   error + string list \<times> NWTree"
where
  "check_loop scd [] acc = Inr acc"
| "check_loop scd (tHandle # hs) (files, s) =
     (case updateItemData scd s tHandle of
        Inl e \<Rightarrow> Inl e
      | Inr (ok, s') \<Rightarrow>
          if ok then check_loop scd hs (removeAll tHandle files, s')
          else check_loop scd hs (files, delitem s' tHandle))"

text \<open>
  The body of the recovery loop up to the new item: the resolution of the parent, the
  \<open>assert\<close>, and the construction of the item (a fresh \<open>NWItem\<close> has no root and a word
  count of zero).
\<close>

definition recoverItem :: "NWTree \<Rightarrow> string \<Rightarrow> string \<Rightarrow> meta \<Rightarrow> error + NWItem \<times> NWTree" where
  "recoverItem s prefix cHandle m =
     (case m of (oName0, oParent0, oClass0, oLayout0) \<Rightarrow>
        let oName = (if oName0 \<noteq> [] then oName0 else cHandle);
            oParent1 = (case oParent0 of
                          None \<Rightarrow> None
                        | Some p \<Rightarrow> if p \<in> fst ` set (tree_nodes s) then Some p else None);
            oClass = (case oClass0 of None \<Rightarrow> NOVEL | Some c \<Rightarrow> c);
            oLayout = (case oLayout0 of None \<Rightarrow> NOTE | Some l \<Rightarrow> l);
            oParent2 = (if oParent1 = None then findRoot s (Some oClass) else oParent1);
            oParent3 = (if oParent2 = None then findRoot s (Some NOVEL) else oParent2);
            created = (if oParent3 = None then create s prefix None ROOT NOVEL
                       else (oParent3, s))
        in case created of (oParent, s') \<Rightarrow>
             if oParent = None then Inl AssertionError
             else Inr (\<lparr>itemHandle = cHandle, itemParent = oParent, itemRoot = None,
                         itemType = FILE, itemClass = oClass, itemLayout = oLayout,
                         itemName = ''['' @ prefix @ ''] '' @ oName, wordCount = 0\<rparr>, s'))"

fun recover_loop ::
  "(nwItemClass \<Rightarrow> NWItem \<Rightarrow> NWItem) \<Rightarrow> (string \<Rightarrow> meta) \<Rightarrow> string \<Rightarrow> string list \<Rightarrow>
   nat \<times> NWTree \<Rightarrow> error + nat \<times> NWTree"
where
  "recover_loop scd getMeta prefix [] acc = Inr acc"
| "recover_loop scd getMeta prefix (cHandle # files) (recovered, s) =
     (case recoverItem s prefix cHandle (getMeta cHandle) of
        Inl e \<Rightarrow> Inl e
      | Inr (newItem, s1) \<Rightarrow>
          (case append_item s1 newItem of
             (True, s2) \<Rightarrow>
               (case updateItemData scd s2 cHandle of
                  Inl e \<Rightarrow> Inl e
                | Inr (_, s3) \<Rightarrow> recover_loop scd getMeta prefix files (recovered + 1, s3))
           | (False, s2) \<Rightarrow> recover_loop scd getMeta prefix files (recovered, s2)))"

definition checkConsistency ::
  "(nwItemClass \<Rightarrow> NWItem \<Rightarrow> NWItem) \<Rightarrow> string list \<Rightarrow> (string \<Rightarrow> meta) \<Rightarrow> NWTree \<Rightarrow> string \<Rightarrow>
   error + (nat \<times> nat) \<times> NWTree"
where
  "checkConsistency scd scanContent getMeta s prefix =
     (case check_loop scd (map fst (tree_nodes s)) (remdups scanContent, s) of
        Inl e \<Rightarrow> Inl e
      | Inr (files, s1) \<Rightarrow>
          if length files = 0 then Inr ((0, 0), s1)
          else (case recover_loop scd getMeta prefix files (0, s1) of
                  Inl e \<Rightarrow> Inl e
                | Inr (recovered, s2) \<Rightarrow> Inr ((length files, recovered), s2)))"

subsection \<open>Handle generation\<close>

text \<open>
  \<open>f"{random.getrandbits(52):013x}"\<close>: the draw is a 52-bit word, written as 13 lower-case
  hexadecimal digits, most significant first.
\<close>

definition hexchars :: string where
  "hexchars = ''0123456789abcdef''"

definition hexdigit :: "nat \<Rightarrow> char" where
  "hexdigit d = hexchars ! d"

definition hex13 :: "52 word \<Rightarrow> string" where
  "hex13 w = map (\<lambda>i. hexdigit (unat w div 16 ^ i mod 16)) (rev [0..<13])"

text \<open>
  \<open>_makeHandle\<close>: the random generator is the sequence \<open>rnd\<close> of the values it will draw
  and the number \<open>n\<close> of draws made so far. The method calls itself on a collision
  (\<open>return self._makeHandle()\<close>), so every colliding draw adds one frame to the
  interpreter's stack, and the interpreter raises \<open>RecursionError\<close> when a call would
  exceed its recursion limit. \<open>depth\<close> is the number of nested calls of the method that the
  limit still allows where the first call is made (the limit less the frames of the
  caller): with \<open>depth = 0\<close> the call itself is refused.
\<close>

fun makeHandle :: "nat \<Rightarrow> (nat \<Rightarrow> 52 word) \<Rightarrow> NWTree \<Rightarrow> nat \<Rightarrow> error + string \<times> nat" where
  "makeHandle 0 rnd s n = Inl RecursionError"
| "makeHandle (Suc depth) rnd s n =
     (if hex13 (rnd n) \<in> fst ` set (tree_items s)
      then makeHandle depth rnd s (Suc n)
      else Inr (hex13 (rnd n), Suc n))"

subsection \<open>Example items\<close>

text \<open>
  Concrete items for the statements below. In the examples a persisted record is the
  item it describes, every record is accepted (\<open>item_unpack\<close> is \<open>Some\<close>) and an item is
  packed as itself (\<open>item_pack\<close> is the identity).
\<close>

definition mkItem ::
  "string \<Rightarrow> string option \<Rightarrow> nwItemType \<Rightarrow> nwItemClass \<Rightarrow> string \<Rightarrow> NWItem"
where
  "mkItem h p ty cl nm =
     \<lparr>itemHandle = h, itemParent = p, itemRoot = None, itemType = ty, itemClass = cl,
      itemLayout = (if ty = FILE then DOCUMENT else NO_LAYOUT), itemName = nm, wordCount = 0\<rparr>"

definition novelRoot :: NWItem where
  "novelRoot = mkItem ''0000000000001'' None ROOT NOVEL ''Novel''"

definition trashRoot :: NWItem where
  "trashRoot = mkItem ''0000000000002'' None ROOT TRASH ''Trash''"

definition trashRoot2 :: NWItem where
  "trashRoot2 = mkItem ''0000000000003'' None ROOT TRASH ''Trash''"

definition chapter1 :: NWItem where
  "chapter1 = mkItem ''0000000000004'' (Some ''0000000000001'') FOLDER NOVEL ''Chapter 1''"

definition scene1 :: NWItem where
  "scene1 = mkItem ''0000000000005'' (Some ''0000000000004'') FILE NOVEL ''Scene 1''"

definition scene2 :: NWItem where
  "scene2 = mkItem ''0000000000006'' (Some ''0000000000001'') FILE NOVEL ''Scene 2''"

definition renamedRoot :: NWItem where
  "renamedRoot = mkItem ''0000000000001'' None ROOT NOVEL ''Draft''"

definition zeroRoot :: NWItem where
  "zeroRoot = mkItem ''0000000000000'' None ROOT NOVEL ''Novel''"

subsection \<open>Notions used in the statements\<close>

text \<open>
  The parent chain of an item, for the statements about \<open>updateItemData\<close>:
  \<open>parentChain s x ys\<close> holds when \<open>ys\<close> are successive ancestors of \<open>x\<close>, each the item
  that \<open>__getitem__\<close> finds under the parent handle of the one before it.
\<close>

fun parentChain :: "NWTree \<Rightarrow> NWItem \<Rightarrow> NWItem list \<Rightarrow> bool" where
  "parentChain s x [] = True"
| "parentChain s x (y # ys) =
     (case itemParent x of
        None \<Rightarrow> False
      | Some p \<Rightarrow> getitem s (Some p) = Some y \<and> parentChain s y ys)"

subsection \<open>Further examples\<close>

text \<open>
  An example of \<open>NWItem.setClassDefaults\<close> for the closed statements: an item with a
  parent takes the class of its root.
\<close>

definition classDefaults :: "nwItemClass \<Rightarrow> NWItem \<Rightarrow> NWItem" where
  "classDefaults c item = (if itemParent item = None then item else item\<lparr>itemClass := c\<rparr>)"

text \<open>
  A chain of 1001 nested folders, \<open>0000000000000\<close> to \<open>00000000003e8\<close>, each the child of
  the next; the parent of the topmost, \<open>00000000003e9\<close>, is not in the store.
\<close>

definition deepItem :: "nat \<Rightarrow> NWItem" where
  "deepItem i = mkItem (hex13 (of_nat i)) (Some (hex13 (of_nat (Suc i)))) FOLDER NOVEL ''Folder''"

definition deepStore :: NWTree where
  "deepStore = unpack Some (map deepItem [0..<1001]) init"

text \<open>Two folders that are each other's parent, and a file whose parent is missing.\<close>

definition cycleA :: NWItem where
  "cycleA = mkItem ''000000000000a'' (Some ''000000000000b'') FOLDER NOVEL ''A''"

definition cycleB :: NWItem where
  "cycleB = mkItem ''000000000000b'' (Some ''000000000000a'') FOLDER NOVEL ''B''"

definition orphanFile :: NWItem where
  "orphanFile = mkItem ''000000000000c'' (Some ''000000000000d'') FILE NOVEL ''Lost''"

text \<open>
  A storage whose content units all declare the name \<open>Lost scene\<close>, the parent
  \<open>0000000000000\<close>, the class \<open>NOVEL\<close> and the layout \<open>DOCUMENT\<close>.
\<close>

definition lostMeta :: "string \<Rightarrow> meta" where
  "lostMeta cHandle = (''Lost scene'', Some ''0000000000000'', Some NOVEL, Some DOCUMENT)"

subsection \<open>Notions used in the proofs about the builder\<close>

text \<open>
  The node at a position below the synthetic root, and the positions on the rightmost
  branch of the node layer (the last child of the last child, and so on).
\<close>

fun nodeAt :: "node_ref \<Rightarrow> ProjectNode list \<Rightarrow> ProjectNode option" where
  "nodeAt [] ns = None"
| "nodeAt (i # p) ns =
     (if i < length ns
      then (if p = [] then Some (ns ! i) else nodeAt p (children (ns ! i)))
      else None)"

fun onSpine :: "node_ref \<Rightarrow> ProjectNode list \<Rightarrow> bool" where
  "onSpine [] ns = True"
| "onSpine (i # p) ns = (ns \<noteq> [] \<and> i = length ns - 1 \<and> onSpine p (children (last ns)))"


text \<open>The store of a list of items with distinct handles, as \<open>unpack\<close> builds it.\<close>

definition entries :: "NWItem list \<Rightarrow> (string \<times> NWItem) list" where
  "entries its = map (\<lambda>it. (itemHandle it, it)) its"




text \<open>
  \<open>docOrder stack its\<close>: the list \<open>its\<close> is in document order, the depth-first order in
  which \<open>allChildren\<close> visits a tree. An item without (non-empty) parent handle is a root
  and starts a new tree; any other item is the child of the item before it or of one of
  that item's ancestors. \<open>stack\<close> holds the last item and its ancestors, nearest first.
\<close>

fun docOrder :: "string list \<Rightarrow> NWItem list \<Rightarrow> bool" where
  "docOrder stack [] = True"
| "docOrder stack (x # xs) =
     (case truthy (itemParent x) of
        None \<Rightarrow> isRootType x \<and> docOrder [itemHandle x] xs
      | Some p \<Rightarrow> p \<in> set stack \<and> docOrder (itemHandle x # dropWhile (\<lambda>h. h \<noteq> p) stack) xs)"

text \<open>
  The invariant of the pass over a list in document order: the items of the stack have
  their nodes on the rightmost branch, deeper from item to item towards the top of the
  stack; the nodes in pre-order are the items handled so far; nothing is left for later.
\<close>

definition pathLen :: "(string \<times> node_ref) list \<Rightarrow> string \<Rightarrow> nat" where
  "pathLen nd h = (case map_of nd h of None \<Rightarrow> 0 | Some p \<Rightarrow> length p)"

definition spineStack :: "(string \<times> node_ref) list \<Rightarrow> ProjectNode list \<Rightarrow> string list \<Rightarrow> bool" where
  "spineStack nd f stack \<longleftrightarrow>
     (\<forall>h \<in> set stack. \<exists>p. map_of nd h = Some p \<and> onSpine p f) \<and>
     sorted_wrt (\<lambda>a b. pathLen nd b \<le> pathLen nd a) stack"

definition docInv :: "NWItem list \<Rightarrow> string list \<Rightarrow> (string \<times> NWItem) list \<times> NWTree \<Rightarrow> bool" where
  "docInv prev stack acc \<longleftrightarrow>
     fst acc = [] \<and>
     map nodeItem (allChildren (model_root (snd acc))) = map itemHandle prev \<and>
     spineStack (tree_nodes (snd acc)) (model_root (snd acc)) stack \<and>
     fst ` set (tree_nodes (snd acc)) \<subseteq> itemHandle ` set prev"

section \<open>Theorems\<close>

lemma getitem_None_iff:
  "getitem s (Some h) = None \<longleftrightarrow> h = [] \<or> h \<notin> fst ` set (tree_items s)"
  by (auto simp: getitem_def map_of_eq_None_iff)

subsection \<open>Creation and admission\<close>

text \<open>
  Claim C3. \<open>create\<close> should return a fresh handle and admit the new item whenever the
  parent is none or a known handle, in particular for every \<open>ROOT\<close> item. In the source
  the body of \<open>create\<close> is commented out: for a \<open>NOVEL\<close> root without parent, on the empty
  tree, it returns no handle and the store stays empty.
\<close>

theorem create_root_returns_None:
  "fst (create init ''Novel'' None ROOT NOVEL) = None \<and>
   tree_items (snd (create init ''Novel'' None ROOT NOVEL)) = []"
  by (simp add: create_def init_def)

text \<open>
  Claim C4. \<open>append\<close> should reject an item whose handle is already present in the store.
  In the source the body of \<open>append\<close> is commented out: with the \<open>NOVEL\<close> root in the store,
  appending an item of the same handle returns \<open>True\<close> and leaves the store as it is.
\<close>

theorem append_duplicate_returns_True:
  "itemHandle novelRoot \<in> fst ` set (tree_items (unpack Some [novelRoot] init)) \<and>
   append_item (unpack Some [novelRoot] init) novelRoot = (True, unpack Some [novelRoot] init)"
  by (simp add: append_item_def unpack_def clear_def init_def)

subsection \<open>The trash test\<close>

text \<open>
  Claim C8, as amended. \<open>isTrash\<close> returns true exactly when the handle is empty or not in
  the store, or the item's class is \<open>TRASH\<close>, or a trash root is set and the handle is the
  trash root, or the item's parent handle is the trash root, or the item's cached root is
  the trash root; it returns false otherwise.
\<close>

theorem isTrash_iff:
  "isTrash s h \<longleftrightarrow>
     (getitem s (Some h) = None \<or>
      (\<exists>tItem. getitem s (Some h) = Some tItem \<and>
         (itemClass tItem = TRASH \<or>
          (\<exists>t. tree_trash s = Some t \<and>
             (h = t \<or> itemParent tItem = Some t \<or> itemRoot tItem = Some t)))))"
  by (auto simp: isTrash_def split: option.splits)

text \<open>
  Claim C8 as stated fails: on the empty tree, which has no trash root, \<open>isTrash\<close> is true
  for a handle that is not in the store.
\<close>

theorem isTrash_missing_handle_counterexample:
  "isTrash init ''00000000000ff'' \<and> tree_trash init = None \<and> tree_items init = []"
  by (simp add: isTrash_def getitem_def init_def)

subsection \<open>Loading the store\<close>

lemma map_of_dict_set: "map_of (dict_set d k v) = (map_of d)(k \<mapsto> v)"
  by (induction d k v rule: dict_set.induct) (auto simp: fun_eq_iff)

lemma keys_dict_set: "fst ` set (dict_set d k v) = insert k (fst ` set d)"
  by (induction d k v rule: dict_set.induct) auto

lemma distinct_dict_set: "distinct (map fst d) \<Longrightarrow> distinct (map fst (dict_set d k v))"
  by (induction d k v rule: dict_set.induct) (auto simp: keys_dict_set)

lemma find_snoc:
  "List.find P (xs @ [x]) =
     (case List.find P xs of Some y \<Rightarrow> Some y | None \<Rightarrow> if P x then Some x else None)"
  by (induction xs) auto

lemma find_SomeD: "List.find P xs = Some x \<Longrightarrow> P x \<and> x \<in> set xs"
  by (induction xs) (auto split: if_splits)

lemma unpack_loop_root [simp]: "model_root (unpack_loop iu data s) = model_root s"
  by (induction data arbitrary: s) (auto split: option.splits)

lemma unpack_loop_nodes [simp]: "tree_nodes (unpack_loop iu data s) = tree_nodes s"
  by (induction data arbitrary: s) (auto split: option.splits)

lemma unpack_loop_changed [simp]: "tree_changed (unpack_loop iu data s) = tree_changed s"
  by (induction data arbitrary: s) (auto split: option.splits)

text \<open>The store after the loop: for each handle the last accepted record wins.\<close>

lemma unpack_loop_items:
  "map_of (tree_items (unpack_loop iu data s)) h =
     (case List.find (\<lambda>it. itemHandle it = h) (rev (List.map_filter iu data)) of
        Some it \<Rightarrow> Some it | None \<Rightarrow> map_of (tree_items s) h)"
proof (induction data arbitrary: s)
  case Nil
  show ?case by simp
next
  case (Cons r data)
  show ?case
  proof (cases "iu r")
    case None
    then show ?thesis using Cons by simp
  next
    case (Some it)
    then show ?thesis using Cons
      by (auto simp add: find_snoc map_of_dict_set split: option.splits)
  qed
qed

lemma unpack_loop_trash:
  "tree_trash (unpack_loop iu data s) =
     (case List.find (\<lambda>it. itemClass it = TRASH) (rev (List.map_filter iu data)) of
        Some it \<Rightarrow> Some (itemHandle it) | None \<Rightarrow> tree_trash s)"
proof (induction data arbitrary: s)
  case Nil
  show ?case by simp
next
  case (Cons r data)
  show ?case
  proof (cases "iu r")
    case None
    then show ?thesis using Cons by simp
  next
    case (Some it)
    then show ?thesis using Cons
      by (auto simp add: find_snoc split: option.splits)
  qed
qed

lemma unpack_loop_distinct:
  "distinct (map fst (tree_items s)) \<Longrightarrow>
   distinct (map fst (tree_items (unpack_loop iu data s)))"
  by (induction data arbitrary: s) (auto simp: distinct_dict_set split: option.splits)

lemma unpack_distinct: "distinct (map fst (tree_items (unpack iu data s)))"
  using unpack_loop_distinct[of "clear s" iu data] by (simp add: unpack_def clear_def)

lemma unpack_items:
  "map_of (tree_items (unpack iu data s)) h =
     List.find (\<lambda>it. itemHandle it = h) (rev (List.map_filter iu data))"
  by (simp add: unpack_def unpack_loop_items clear_def split: option.splits)

lemma unpack_trash:
  "tree_trash (unpack iu data s) =
     map_option itemHandle
       (List.find (\<lambda>it. itemClass it = TRASH) (rev (List.map_filter iu data)))"
  by (simp add: unpack_def unpack_loop_trash clear_def split: option.splits)

lemma unpack_entry:
  assumes "(k, it) \<in> set (tree_items (unpack iu data s))"
  shows "itemHandle it = k \<and> it \<in> set (List.map_filter iu data)"
proof -
  have "map_of (tree_items (unpack iu data s)) k = Some it"
    using unpack_distinct[of iu data s] assms by simp
  then have "List.find (\<lambda>it. itemHandle it = k) (rev (List.map_filter iu data)) = Some it"
    by (simp add: unpack_items)
  then show ?thesis
    using find_SomeD by fastforce
qed

lemma filter_le1_unique:
  assumes "length (filter P xs) \<le> 1" and "a \<in> set xs" and "P a" and "b \<in> set xs" and "P b"
  shows "a = b"
proof -
  have m: "a \<in> set (filter P xs)" "b \<in> set (filter P xs)"
    using assms by auto
  then obtain x where "filter P xs = [x]"
    using assms(1) by (cases "filter P xs") auto
  with m show ?thesis by simp
qed

text \<open>
  Claim C10, as amended. \<open>unpack\<close> clears the tree first, so from any two prior states it
  gives the same tree. In it the node layer is empty and the changed flag is false; the
  store holds, for each handle, the last record of the data with that handle that
  \<open>NWItem.unpack\<close> accepts (an earlier accepted record of the same handle is replaced, a
  rejected record is skipped); and the trash handle is the handle of the last accepted
  record of class \<open>TRASH\<close>, or none.
\<close>

theorem unpack_from_any_state:
  "unpack iu data s = unpack iu data s' \<and>
   model_root (unpack iu data s) = [] \<and>
   tree_nodes (unpack iu data s) = [] \<and>
   tree_changed (unpack iu data s) = False \<and>
   distinct (map fst (tree_items (unpack iu data s))) \<and>
   map_of (tree_items (unpack iu data s)) h =
     List.find (\<lambda>it. itemHandle it = h) (rev (List.map_filter iu data)) \<and>
   tree_trash (unpack iu data s) =
     map_option itemHandle
       (List.find (\<lambda>it. itemClass it = TRASH) (rev (List.map_filter iu data)))"
proof -
  have "clear s = clear s'"
    by (simp add: clear_def)
  then have "unpack iu data s = unpack iu data s'"
    by (simp add: unpack_def)
  moreover have "model_root (unpack iu data s) = []" "tree_nodes (unpack iu data s) = []"
    "tree_changed (unpack iu data s) = False"
    by (simp_all add: unpack_def clear_def)
  ultimately show ?thesis
    using unpack_distinct unpack_items unpack_trash by blast
qed

text \<open>
  Claim C10 as stated fails: of two accepted records with the same handle the store holds
  only the second, so it does not hold exactly the accepted records.
\<close>

theorem unpack_duplicate_handle_counterexample:
  "List.map_filter Some [novelRoot, renamedRoot] = [novelRoot, renamedRoot] \<and>
   novelRoot \<notin> snd ` set (tree_items (unpack Some [novelRoot, renamedRoot] init))"
  by (simp add: unpack_def clear_def init_def novelRoot_def renamedRoot_def mkItem_def)

text \<open>
  Claim C5, as amended. \<open>unpack\<close> keeps one trash handle and does not limit the items of
  class \<open>TRASH\<close>: when the accepted records of the data hold at most one item of class
  \<open>TRASH\<close>, the store after \<open>unpack\<close> holds at most one item of class \<open>TRASH\<close>, and the
  handle of such an item is the trash handle. \<open>append\<close> returns the store unchanged.
\<close>

theorem unpack_single_trash:
  assumes "length (filter (\<lambda>it. itemClass it = TRASH) (List.map_filter iu data)) \<le> 1"
  shows "length (filter (\<lambda>e. itemClass (snd e) = TRASH) (tree_items (unpack iu data s))) \<le> 1 \<and>
         fst ` {e \<in> set (tree_items (unpack iu data s)). itemClass (snd e) = TRASH}
           \<subseteq> set_option (tree_trash (unpack iu data s)) \<and>
         snd (append_item (unpack iu data s) nwItem) = unpack iu data s"
proof -
  let ?u = "unpack iu data s"
  let ?acc = "List.map_filter iu data"
  let ?T = "filter (\<lambda>e. itemClass (snd e) = TRASH) (tree_items ?u)"
  have d: "distinct (map fst (tree_items ?u))"
    by (rule unpack_distinct)
  have ent: "\<And>e. e \<in> set (tree_items ?u) \<Longrightarrow> itemHandle (snd e) = fst e \<and> snd e \<in> set ?acc"
  proof -
    fix e assume "e \<in> set (tree_items ?u)"
    then show "itemHandle (snd e) = fst e \<and> snd e \<in> set ?acc"
      using unpack_entry[of "fst e" "snd e" iu data s] by simp
  qed
  have dT: "distinct ?T"
    using d by (simp add: distinct_map)
  have inj: "inj_on snd (set ?T)"
  proof (rule inj_onI)
    fix x y assume "x \<in> set ?T" "y \<in> set ?T" "snd x = snd y"
    then have "fst x = fst y"
      using ent[of x] ent[of y] by auto
    then show "x = y"
      using \<open>snd x = snd y\<close> by (simp add: prod_eq_iff)
  qed
  have "distinct (map snd ?T)"
    using dT inj by (simp add: distinct_map)
  then have "length ?T = card (set (map snd ?T))"
    by (metis distinct_card length_map)
  also have "set (map snd ?T) \<subseteq> set (filter (\<lambda>it. itemClass it = TRASH) ?acc)"
    using ent by auto
  then have "card (set (map snd ?T)) \<le> card (set (filter (\<lambda>it. itemClass it = TRASH) ?acc))"
    by (simp add: card_mono)
  also have "\<dots> \<le> length (filter (\<lambda>it. itemClass it = TRASH) ?acc)"
    by (rule card_length)
  finally have 1: "length ?T \<le> 1"
    using assms by simp
  have 2: "fst ` {e \<in> set (tree_items ?u). itemClass (snd e) = TRASH}
             \<subseteq> set_option (tree_trash ?u)"
  proof
    fix k assume "k \<in> fst ` {e \<in> set (tree_items ?u). itemClass (snd e) = TRASH}"
    then obtain e where e: "e \<in> set (tree_items ?u)" "itemClass (snd e) = TRASH" "k = fst e"
      by auto
    then have a: "snd e \<in> set ?acc" "itemHandle (snd e) = k"
      using ent by auto
    have "List.find (\<lambda>it. itemClass it = TRASH) (rev ?acc) \<noteq> None"
      using a e by (auto simp: find_None_iff)
    then obtain t where t: "List.find (\<lambda>it. itemClass it = TRASH) (rev ?acc) = Some t"
      by auto
    then have "t \<in> set ?acc" "itemClass t = TRASH"
      using find_SomeD by fastforce+
    then have "t = snd e"
      using filter_le1_unique[OF assms] a e by blast
    moreover have "tree_trash ?u = Some (itemHandle t)"
      using t by (simp add: unpack_trash)
    ultimately show "k \<in> set_option (tree_trash ?u)"
      using a by simp
  qed
  show ?thesis
    using 1 2 by (simp add: append_item_def)
qed

theorem unpack_single_trash_witness:
  "length (filter (\<lambda>e. itemClass (snd e) = TRASH)
            (tree_items (unpack Some [novelRoot, trashRoot, chapter1] init))) \<le> 1 \<and>
   fst ` {e \<in> set (tree_items (unpack Some [novelRoot, trashRoot, chapter1] init)).
            itemClass (snd e) = TRASH}
     \<subseteq> set_option (tree_trash (unpack Some [novelRoot, trashRoot, chapter1] init)) \<and>
   snd (append_item (unpack Some [novelRoot, trashRoot, chapter1] init) scene1)
     = unpack Some [novelRoot, trashRoot, chapter1] init"
proof -
  have h: "length (filter (\<lambda>it. itemClass it = TRASH)
             (List.map_filter Some [novelRoot, trashRoot, chapter1])) \<le> 1"
    by (simp add: novelRoot_def trashRoot_def chapter1_def mkItem_def)
  show ?thesis
    by (rule unpack_single_trash[OF h])
qed

text \<open>
  Claim C5 as stated fails: \<open>unpack\<close> of two \<open>TRASH\<close> roots with different handles leaves
  two root items of class \<open>TRASH\<close> in the store.
\<close>

theorem unpack_two_trash_counterexample:
  "length (filter (\<lambda>e. itemClass (snd e) = TRASH \<and> isRootType (snd e))
     (tree_items (unpack Some [trashRoot, trashRoot2] init))) = 2"
  by (simp add: unpack_def clear_def init_def trashRoot_def trashRoot2_def mkItem_def
      isRootType_def)

subsection \<open>Handle generation\<close>

lemma length_hex13: "length (hex13 w) = 13"
  by (simp add: hex13_def)

lemma set_hex13: "set (hex13 w) \<subseteq> set hexchars"
proof -
  have "\<And>d. d < 16 \<Longrightarrow> hexdigit d \<in> set hexchars"
    unfolding hexdigit_def by (rule nth_mem) (simp add: hexchars_def)
  then show ?thesis
    unfolding hex13_def by auto
qed

lemma hex13_0: "hex13 0 = ''0000000000000''"
  by (simp add: hex13_def hexdigit_def hexchars_def upt_rec)

lemma hex13_1: "hex13 1 = ''0000000000001''"
  by (simp add: hex13_def hexdigit_def hexchars_def upt_rec)

text \<open>
  When the draw at distance \<open>k\<close> is the first free one and the recursion limit allows
  more than \<open>k\<close> nested calls, the call returns it.
\<close>

lemma makeHandle_first:
  assumes "k < depth"
    and "hex13 (rnd (n + k)) \<notin> fst ` set (tree_items s)"
    and "\<forall>j<k. hex13 (rnd (n + j)) \<in> fst ` set (tree_items s)"
  shows "makeHandle depth rnd s n = Inr (hex13 (rnd (n + k)), Suc (n + k))"
  using assms
proof (induction depth arbitrary: n k)
  case 0
  then show ?case by simp
next
  case (Suc depth)
  show ?case
  proof (cases k)
    case 0
    then show ?thesis using Suc.prems by simp
  next
    case (Suc k')
    have c: "hex13 (rnd n) \<in> fst ` set (tree_items s)"
      using Suc.prems(3) Suc by (metis add.right_neutral zero_less_Suc)
    have "makeHandle depth rnd s (Suc n) = Inr (hex13 (rnd (Suc n + k')), Suc (Suc n + k'))"
    proof (rule Suc.IH)
      show "k' < depth" using Suc.prems(1) Suc by simp
      show "hex13 (rnd (Suc n + k')) \<notin> fst ` set (tree_items s)"
        using Suc.prems(2) Suc by simp
      show "\<forall>j<k'. hex13 (rnd (Suc n + j)) \<in> fst ` set (tree_items s)"
        using Suc.prems(3) Suc by (metis Suc_less_eq add_Suc_shift)
    qed
    then show ?thesis using c Suc by simp
  qed
qed

text \<open>When every draw the recursion limit allows collides, the call raises.\<close>

lemma makeHandle_all_collide:
  "\<forall>j<depth. hex13 (rnd (n + j)) \<in> fst ` set (tree_items s) \<Longrightarrow>
   makeHandle depth rnd s n = Inl RecursionError"
proof (induction depth arbitrary: n)
  case 0
  then show ?case by simp
next
  case (Suc depth)
  have c: "hex13 (rnd n) \<in> fst ` set (tree_items s)"
    using Suc.prems by (metis add.right_neutral zero_less_Suc)
  have "\<forall>j<depth. hex13 (rnd (Suc n + j)) \<in> fst ` set (tree_items s)"
    using Suc.prems by (metis Suc_less_eq add_Suc_shift)
  then show ?case using c Suc.IH by simp
qed

text \<open>
  Claim C9, as amended. Every draw is written as 13 hexadecimal digits. The retry is the
  method calling itself, one nested call for each colliding draw, with no retry budget of
  its own; what bounds it is the interpreter's recursion limit. When the first draw whose
  handle is not in the store comes within the \<open>depth\<close> nested calls that the limit allows,
  \<open>_makeHandle\<close> returns that handle, which is not in the store; when all of the \<open>depth\<close>
  draws collide, it returns no handle and raises \<open>RecursionError\<close>.
\<close>

theorem makeHandle_outcomes:
  "(k < depth \<and> hex13 (rnd (n + k)) \<notin> fst ` set (tree_items s) \<and>
    (\<forall>j<k. hex13 (rnd (n + j)) \<in> fst ` set (tree_items s)) \<longrightarrow>
      makeHandle depth rnd s n = Inr (hex13 (rnd (n + k)), Suc (n + k)) \<and>
      length (hex13 (rnd (n + k))) = 13 \<and> set (hex13 (rnd (n + k))) \<subseteq> set hexchars) \<and>
   ((\<forall>j<depth. hex13 (rnd (n + j)) \<in> fst ` set (tree_items s)) \<longrightarrow>
      makeHandle depth rnd s n = Inl RecursionError)"
  using makeHandle_first makeHandle_all_collide length_hex13 set_hex13 by blast

theorem makeHandle_outcomes_witness:
  "makeHandle 50 (\<lambda>i. of_nat i) (unpack Some [zeroRoot] init) 0 = Inr (''0000000000001'', 2) \<and>
   ''0000000000001'' \<notin> fst ` set (tree_items (unpack Some [zeroRoot] init)) \<and>
   makeHandle 50 (\<lambda>i. 0) (unpack Some [zeroRoot] init) 0 = Inl RecursionError"
proof -
  let ?s = "unpack Some [zeroRoot] init"
  have k: "fst ` set (tree_items ?s) = {''0000000000000''}"
    by (simp add: unpack_def clear_def init_def zeroRoot_def mkItem_def)
  have 1: "makeHandle 50 (\<lambda>i. of_nat i) ?s 0 = Inr (''0000000000001'', 2)"
    using makeHandle_outcomes[of 1 50 "\<lambda>i. of_nat i" 0 ?s]
    by (simp add: k hex13_0 hex13_1)
  have 2: "makeHandle 50 (\<lambda>i. 0) ?s 0 = Inl RecursionError"
    using makeHandle_outcomes[of 0 50 "\<lambda>i. 0" 0 ?s]
    by (simp add: k hex13_0)
  show ?thesis using 1 2 k by simp
qed

text \<open>
  Claim C9 as stated fails: with the handle of the draw 0 in the store and a generator
  that draws 0 every time, a call that the recursion limit allows 1000 nested calls
  returns no handle: it raises \<open>RecursionError\<close>. The retry is recursion, cut off by the
  interpreter, and the method has no retry budget that ends it with a free handle.
\<close>

theorem makeHandle_collision_counterexample:
  "makeHandle 1000 (\<lambda>i. 0) (unpack Some [zeroRoot] init) 0 = Inl RecursionError"
proof (rule makeHandle_all_collide)
  show "\<forall>j<1000. hex13 ((\<lambda>i. 0) (0 + j)) \<in> fst ` set (tree_items (unpack Some [zeroRoot] init))"
    by (simp add: hex13_0 unpack_def clear_def init_def zeroRoot_def mkItem_def)
qed

subsection \<open>The walk to the root\<close>

lemma loop_root:
  "parentChain s x ys \<Longrightarrow> length ys < n \<Longrightarrow> itemParent (last (x # ys)) = None \<Longrightarrow>
   updateItemData_loop n s x = Inr (Some (last (x # ys)))"
proof (induction n arbitrary: x ys)
  case 0
  then show ?case by simp
next
  case (Suc n)
  show ?case
  proof (cases ys)
    case Nil
    then show ?thesis using Suc.prems by simp
  next
    case (Cons y ys')
    then show ?thesis using Suc.prems Suc.IH[of y ys']
      by (auto split: option.splits)
  qed
qed

lemma loop_missing:
  "parentChain s x ys \<Longrightarrow> length ys < n \<Longrightarrow> itemParent (last (x # ys)) = Some p \<Longrightarrow>
   getitem s (Some p) = None \<Longrightarrow> updateItemData_loop n s x = Inr None"
proof (induction n arbitrary: x ys)
  case 0
  then show ?case by simp
next
  case (Suc n)
  show ?case
  proof (cases ys)
    case Nil
    then show ?thesis using Suc.prems by simp
  next
    case (Cons y ys')
    then show ?thesis using Suc.prems Suc.IH[of y ys']
      by (auto split: option.splits)
  qed
qed

lemma loop_exceeds:
  "parentChain s x ys \<Longrightarrow> n \<le> length ys \<Longrightarrow> updateItemData_loop n s x = Inl RecursionError"
proof (induction n arbitrary: x ys)
  case 0
  then show ?case by simp
next
  case (Suc n)
  then obtain y ys' where ys: "ys = y # ys'" by (cases ys) auto
  then show ?case using Suc.prems Suc.IH[of y ys']
    by (auto split: option.splits)
qed

lemma parentChain_append:
  "parentChain s x (ys @ zs) \<longleftrightarrow> parentChain s x ys \<and> parentChain s (last (x # ys)) zs"
  by (induction ys arbitrary: x) (auto split: option.splits)

lemma parentChain_take: "parentChain s x ys \<Longrightarrow> parentChain s x (take n ys)"
  by (metis append_take_drop_id parentChain_append)

lemma parentChain_cycle:
  assumes "parentChain s x ys" and "ys \<noteq> []" and "last ys = x"
  shows "parentChain s x (concat (replicate n ys)) \<and> last (x # concat (replicate n ys)) = x"
proof (induction n)
  case 0
  show ?case by simp
next
  case (Suc n)
  have "concat (replicate (Suc n) ys) = concat (replicate n ys) @ ys"
    by (metis concat.simps(2) concat_append replicate_Suc replicate_append_same concat.simps(1) append_Nil2)
  then show ?case using Suc assms by (simp add: parentChain_append)
qed

lemma length_concat_replicate: "length (concat (replicate n ys)) = n * length ys"
  by (induction n) auto

lemma cycle_long_chain:
  assumes "parentChain s x ys" and "ys \<noteq> []" and "last ys = x"
  shows "\<exists>zs. parentChain s x zs \<and> length zs = n"
proof -
  let ?zs = "take n (concat (replicate n ys))"
  have "n \<le> n * length ys" using assms(2) by (cases ys) auto
  then have "length ?zs = n" by (simp add: length_concat_replicate)
  moreover have "parentChain s x ?zs"
    using parentChain_cycle[OF assms] parentChain_take by blast
  ultimately show ?thesis by blast
qed

text \<open>
  Claim C7, as amended. If the handle is not in the store, or the walk up the parent chain
  meets a parent handle that is not in the store within the depth bound, \<open>updateItemData\<close>
  returns \<open>False\<close> and changes nothing; if the walk reaches an item without parent within
  the depth bound, it stores that item's handle as root and the defaults of its class on
  the item and returns \<open>True\<close>; if \<open>MAX_DEPTH\<close> ancestors exist one above the other, as on
  every cycle of parents, it raises \<open>RecursionError\<close>.
\<close>

theorem updateItemData_outcomes:
  "(getitem s (Some h) = None \<longrightarrow> updateItemData scd s h = Inr (False, s)) \<and>
   (getitem s (Some h) = Some tItem \<and> parentChain s tItem ys \<longrightarrow>
      (length ys < MAX_DEPTH \<and> (\<exists>p. itemParent (last (tItem # ys)) = Some p \<and> getitem s (Some p) = None) \<longrightarrow>
         updateItemData scd s h = Inr (False, s)) \<and>
      (length ys < MAX_DEPTH \<and> itemParent (last (tItem # ys)) = None \<longrightarrow>
         updateItemData scd s h =
           Inr (True, s\<lparr>tree_items :=
                          dict_update h
                            (\<lambda>t. scd (itemClass (last (tItem # ys)))
                                   (setRoot (Some (itemHandle (last (tItem # ys)))) t))
                            (tree_items s)\<rparr>)) \<and>
      (MAX_DEPTH \<le> length ys \<longrightarrow> updateItemData scd s h = Inl RecursionError) \<and>
      (ys \<noteq> [] \<and> last ys = tItem \<longrightarrow> updateItemData scd s h = Inl RecursionError))"
proof (intro conjI impI)
  assume "getitem s (Some h) = None"
  then show "updateItemData scd s h = Inr (False, s)" by (simp add: updateItemData_def)
next
  assume a: "getitem s (Some h) = Some tItem \<and> parentChain s tItem ys"
    and b: "length ys < MAX_DEPTH \<and> (\<exists>p. itemParent (last (tItem # ys)) = Some p \<and> getitem s (Some p) = None)"
  then obtain p where "itemParent (last (tItem # ys)) = Some p" "getitem s (Some p) = None" by blast
  then have "updateItemData_loop MAX_DEPTH s tItem = Inr None"
    using a b loop_missing by blast
  then show "updateItemData scd s h = Inr (False, s)" using a by (simp add: updateItemData_def)
next
  assume a: "getitem s (Some h) = Some tItem \<and> parentChain s tItem ys"
    and b: "length ys < MAX_DEPTH \<and> itemParent (last (tItem # ys)) = None"
  then have "updateItemData_loop MAX_DEPTH s tItem = Inr (Some (last (tItem # ys)))"
    using loop_root by blast
  then show "updateItemData scd s h =
           Inr (True, s\<lparr>tree_items :=
                          dict_update h
                            (\<lambda>t. scd (itemClass (last (tItem # ys)))
                                   (setRoot (Some (itemHandle (last (tItem # ys)))) t))
                            (tree_items s)\<rparr>)" using a by (simp add: updateItemData_def)
next
  assume a: "getitem s (Some h) = Some tItem \<and> parentChain s tItem ys"
    and b: "MAX_DEPTH \<le> length ys"
  then have "updateItemData_loop MAX_DEPTH s tItem = Inl RecursionError"
    using loop_exceeds by blast
  then show "updateItemData scd s h = Inl RecursionError" using a by (simp add: updateItemData_def)
next
  assume a: "getitem s (Some h) = Some tItem \<and> parentChain s tItem ys"
    and b: "ys \<noteq> [] \<and> last ys = tItem"
  then obtain zs where "parentChain s tItem zs" "length zs = MAX_DEPTH"
    using cycle_long_chain by blast
  then have "updateItemData_loop MAX_DEPTH s tItem = Inl RecursionError"
    using loop_exceeds[of s tItem zs MAX_DEPTH] by simp
  then show "updateItemData scd s h = Inl RecursionError" using a by (simp add: updateItemData_def)
qed

lemma hexdigit_inj: "a < 16 \<Longrightarrow> b < 16 \<Longrightarrow> hexdigit a = hexdigit b \<Longrightarrow> a = b"
proof -
  have d: "distinct hexchars" by (simp add: hexchars_def)
  have l: "length hexchars = 16" by (simp add: hexchars_def)
  show "a < 16 \<Longrightarrow> b < 16 \<Longrightarrow> hexdigit a = hexdigit b \<Longrightarrow> a = b"
    unfolding hexdigit_def using d l by (simp add: nth_eq_iff_index_eq)
qed

lemma digits_mod:
  fixes n m :: nat
  shows "(\<forall>i<k. n div 16 ^ i mod 16 = m div 16 ^ i mod 16) \<Longrightarrow> n mod 16 ^ k = m mod 16 ^ k"
proof (induction k)
  case 0
  show ?case by simp
next
  case (Suc k)
  have "n mod (16 ^ k * 16) = 16 ^ k * (n div 16 ^ k mod 16) + n mod 16 ^ k"
    by (rule mod_mult2_eq)
  moreover have "m mod (16 ^ k * 16) = 16 ^ k * (m div 16 ^ k mod 16) + m mod 16 ^ k"
    by (rule mod_mult2_eq)
  ultimately show ?case using Suc by (simp add: mult.commute)
qed

lemma hex13_inj: "hex13 a = hex13 b \<Longrightarrow> a = b"
proof -
  assume e: "hex13 a = hex13 b"
  have "\<forall>i<13. unat a div 16 ^ i mod 16 = unat b div 16 ^ i mod 16"
  proof (intro allI impI)
    fix i :: nat assume "i < 13"
    then have "i \<in> set (rev [0..<13])" by simp
    with e have "hexdigit (unat a div 16 ^ i mod 16) = hexdigit (unat b div 16 ^ i mod 16)"
      unfolding hex13_def by (meson map_eq_conv)
    then show "unat a div 16 ^ i mod 16 = unat b div 16 ^ i mod 16"
      by (rule hexdigit_inj[rotated 2]) simp_all
  qed
  then have m: "unat a mod 16 ^ 13 = unat b mod 16 ^ 13" by (rule digits_mod)
  have "unat a < 2 ^ 52" "unat b < 2 ^ 52"
    using unsigned_less[of a] unsigned_less[of b] by simp_all
  then have "unat a < 16 ^ 13" "unat b < 16 ^ 13" by simp_all
  with m have "unat a = unat b" by simp
  then show "a = b" by (simp add: word_unat_eq_iff)
qed

lemma hex13_of_nat_inj:
  "i < 2 ^ 52 \<Longrightarrow> j < 2 ^ 52 \<Longrightarrow> hex13 (of_nat i) = hex13 (of_nat j) \<Longrightarrow> i = j"
proof -
  assume a: "i < 2 ^ 52" "j < 2 ^ 52" "hex13 (of_nat i) = hex13 (of_nat j)"
  then have "(of_nat i :: 52 word) = of_nat j" by (simp add: hex13_inj)
  then have "unat (of_nat i :: 52 word) = unat (of_nat j :: 52 word)" by simp
  then show "i = j" using a by (simp add: unat_of_nat)
qed

lemma getitem_map_of:
  "getitem s (Some h) = (if h = [] then None else map_of (tree_items s) h)"
proof (cases "h \<in> fst ` set (tree_items s)")
  case True
  then show ?thesis by (simp add: getitem_def)
next
  case False
  then have "map_of (tree_items s) h = None" by (simp add: map_of_eq_None_iff)
  then show ?thesis by (simp add: getitem_def)
qed

lemma map_filter_Some: "List.map_filter Some xs = xs"
  by (induction xs) auto

lemma find_inj:
  "inj_on f (set xs) \<Longrightarrow> x \<in> set xs \<Longrightarrow> List.find (\<lambda>y. f y = f x) xs = Some x"
  by (induction xs) (auto simp: inj_on_def)

lemma deepItem_handle: "itemHandle (deepItem i) = hex13 (of_nat i)"
  by (simp add: deepItem_def mkItem_def)

lemma deepItem_parent: "itemParent (deepItem i) = Some (hex13 (of_nat (Suc i)))"
  by (simp add: deepItem_def mkItem_def)

lemma hex13_nonempty: "hex13 w \<noteq> []"
  using length_hex13[of w] by auto

lemma deep_inj: "inj_on itemHandle (set (rev (map deepItem [0..<1001])))"
proof (rule inj_onI)
  fix x y assume "x \<in> set (rev (map deepItem [0..<1001]))" "y \<in> set (rev (map deepItem [0..<1001]))"
    and e: "itemHandle x = itemHandle y"
  then obtain i j where ij: "x = deepItem i" "i < 1001" "y = deepItem j" "j < 1001" by auto
  then have "hex13 (of_nat i) = hex13 (of_nat j)" using e by (simp add: deepItem_handle)
  then have "i = j" using ij by (intro hex13_of_nat_inj) simp_all
  then show "x = y" using ij by simp
qed

lemma deepStore_get:
  assumes "i < 1001"
  shows "getitem deepStore (Some (hex13 (of_nat i))) = Some (deepItem i)"
proof -
  have "deepItem i \<in> set (rev (map deepItem [0..<1001]))" using assms by simp
  from find_inj[OF deep_inj this]
  have "List.find (\<lambda>y. itemHandle y = hex13 (of_nat i)) (rev (map deepItem [0..<1001])) = Some (deepItem i)"
    by (simp add: deepItem_handle)
  then show ?thesis
    by (simp add: getitem_map_of hex13_nonempty deepStore_def unpack_items map_filter_Some)
qed

lemma deepStore_missing: "getitem deepStore (Some (hex13 (of_nat 1001))) = None"
proof -
  have "\<And>x. x \<in> set (rev (map deepItem [0..<1001])) \<Longrightarrow> itemHandle x \<noteq> hex13 (of_nat 1001)"
  proof -
    fix x assume "x \<in> set (rev (map deepItem [0..<1001]))"
    then obtain i where i: "x = deepItem i" "i < 1001" by auto
    have "hex13 (of_nat i) \<noteq> hex13 (of_nat (1001::nat))"
    proof
      assume "hex13 (of_nat i) = hex13 (of_nat (1001::nat))"
      then have "i = 1001" using i by (intro hex13_of_nat_inj) simp_all
      then show False using i by simp
    qed
    then show "itemHandle x \<noteq> hex13 (of_nat 1001)" using i by (simp add: deepItem_handle)
  qed
  then have "List.find (\<lambda>y. itemHandle y = hex13 (of_nat 1001)) (rev (map deepItem [0..<1001])) = None"
    by (simp add: find_None_iff del: of_nat_numeral)
  then show ?thesis
    by (simp add: getitem_map_of deepStore_def unpack_items map_filter_Some del: of_nat_numeral)
qed

lemma deepStore_chain:
  "i + k = 1000 \<Longrightarrow> parentChain deepStore (deepItem i) (map deepItem [Suc i..<1001])"
proof (induction k arbitrary: i)
  case 0
  then show ?case by simp
next
  case (Suc k)
  then have i: "Suc i < 1001" "Suc i + k = 1000" by simp_all
  have u: "[Suc i..<1001] = Suc i # [Suc (Suc i)..<1001]"
    using i by (simp add: upt_conv_Cons)
  show ?case
    using Suc.IH[OF i(2)] deepStore_get[OF i(1)] by (simp add: u deepItem_parent)
qed

text \<open>
  Claim C7 as stated fails in its first part: on a chain of 1001 folders whose topmost
  parent handle is missing from the store, the call does not return \<open>False\<close>; the walk
  uses up the depth bound first and \<open>RecursionError\<close> is raised.
\<close>

theorem updateItemData_deep_chain_counterexample:
  "getitem deepStore (Some (hex13 (of_nat 0))) = Some (deepItem 0) \<and>
   parentChain deepStore (deepItem 0) (map deepItem [1..<1001]) \<and>
   itemParent (last (deepItem 0 # map deepItem [1..<1001])) = Some (hex13 (of_nat 1001)) \<and>
   getitem deepStore (Some (hex13 (of_nat 1001))) = None \<and>
   updateItemData classDefaults deepStore (hex13 (of_nat 0)) = Inl RecursionError"
proof -
  have g: "getitem deepStore (Some (hex13 (of_nat 0))) = Some (deepItem 0)"
    by (rule deepStore_get) simp
  have c: "parentChain deepStore (deepItem 0) (map deepItem [1..<1001])"
    using deepStore_chain[of 0 1000] by simp
  have "last (deepItem 0 # map deepItem [1..<1001]) = deepItem 1000"
    by (simp add: last_map)
  then have l: "itemParent (last (deepItem 0 # map deepItem [1..<1001])) = Some (hex13 (of_nat 1001))"
    by (simp add: deepItem_parent del: of_nat_numeral)
  have "updateItemData_loop MAX_DEPTH deepStore (deepItem 0) = Inl RecursionError"
    using c by (rule loop_exceeds) (simp add: MAX_DEPTH_def)
  then have u: "updateItemData classDefaults deepStore (hex13 (of_nat 0)) = Inl RecursionError"
    using g by (simp add: updateItemData_def)
  show ?thesis using g c l deepStore_missing u by blast
qed

theorem updateItemData_outcomes_witness:
  "updateItemData classDefaults init ''0000000000005'' = Inr (False, init) \<and>
   updateItemData classDefaults (unpack Some [orphanFile] init) ''000000000000c''
     = Inr (False, unpack Some [orphanFile] init) \<and>
   updateItemData classDefaults (unpack Some [novelRoot, chapter1, scene1] init) ''0000000000005''
     = Inr (True, (unpack Some [novelRoot, chapter1, scene1] init)
            \<lparr>tree_items := dict_update ''0000000000005''
                (\<lambda>t. classDefaults NOVEL (setRoot (Some ''0000000000001'') t))
                (tree_items (unpack Some [novelRoot, chapter1, scene1] init))\<rparr>) \<and>
   updateItemData classDefaults (unpack Some [cycleA, cycleB] init) ''000000000000a''
     = Inl RecursionError"
proof -
  have 1: "updateItemData classDefaults init ''0000000000005'' = Inr (False, init)"
    using updateItemData_outcomes[of init "''0000000000005''" classDefaults]
    by (simp add: getitem_def init_def)
  let ?s2 = "unpack Some [orphanFile] init"
  have 2: "updateItemData classDefaults ?s2 ''000000000000c'' = Inr (False, ?s2)"
    using updateItemData_outcomes[of ?s2 "''000000000000c''" classDefaults orphanFile "[]"]
    by (simp add: getitem_def unpack_def clear_def init_def orphanFile_def mkItem_def MAX_DEPTH_def)
  let ?s3 = "unpack Some [novelRoot, chapter1, scene1] init"
  have 3: "updateItemData classDefaults ?s3 ''0000000000005''
     = Inr (True, ?s3\<lparr>tree_items := dict_update ''0000000000005''
                (\<lambda>t. classDefaults NOVEL (setRoot (Some ''0000000000001'') t))
                (tree_items ?s3)\<rparr>)"
    using updateItemData_outcomes[of ?s3 "''0000000000005''" classDefaults scene1 "[chapter1, novelRoot]"]
    by (simp add: getitem_def unpack_def clear_def init_def novelRoot_def chapter1_def scene1_def
        mkItem_def MAX_DEPTH_def)
  let ?s4 = "unpack Some [cycleA, cycleB] init"
  have 4: "updateItemData classDefaults ?s4 ''000000000000a'' = Inl RecursionError"
    using updateItemData_outcomes[of ?s4 "''000000000000a''" classDefaults cycleA "[cycleB, cycleA]"]
    by (simp add: getitem_def unpack_def clear_def init_def cycleA_def cycleB_def mkItem_def
        MAX_DEPTH_def)
  show ?thesis using 1 2 3 4 by blast
qed

subsection \<open>Orphan recovery\<close>

text \<open>
  The parent of a recovered item: the declared parent when it has a node, else the first
  root of the declared class (\<open>NOVEL\<close> when none is declared), else the first \<open>NOVEL\<close> root;
  with none of them \<open>create\<close> is called, returns no handle, and the \<open>assert\<close> fails.
\<close>

lemma recoverItem_cases:
  fixes s prefix cHandle oName oParent oClass oLayout
  defines "known \<equiv> (case oParent of None \<Rightarrow> None
                     | Some p \<Rightarrow> if p \<in> fst ` set (tree_nodes s) then Some p else None)"
    and "cls \<equiv> (case oClass of None \<Rightarrow> NOVEL | Some c \<Rightarrow> c)"
  defines "target \<equiv> (case known of Some p \<Rightarrow> Some p
                      | None \<Rightarrow> (case findRoot s (Some cls) of Some r \<Rightarrow> Some r
                                 | None \<Rightarrow> findRoot s (Some NOVEL)))"
  shows "recoverItem s prefix cHandle (oName, oParent, oClass, oLayout) =
     (case target of
        None \<Rightarrow> Inl AssertionError
      | Some p \<Rightarrow>
          Inr (\<lparr>itemHandle = cHandle, itemParent = Some p, itemRoot = None, itemType = FILE,
                itemClass = cls,
                itemLayout = (case oLayout of None \<Rightarrow> NOTE | Some l \<Rightarrow> l),
                itemName = ''['' @ prefix @ ''] '' @ (if oName \<noteq> [] then oName else cHandle),
                wordCount = 0\<rparr>, s))"
  unfolding known_def cls_def target_def
  by (simp add: recoverItem_def create_def Let_def split: option.splits)

text \<open>
  Claim C6. With the declared parent unknown and no root of the declared class nor of
  class \<open>NOVEL\<close>, a new \<open>NOVEL\<close> root should be made for the orphan. On a tree that holds
  only the trash root the recovery stops with \<open>AssertionError\<close> instead: \<open>create\<close> returns
  no handle.
\<close>

theorem checkConsistency_no_root_fails:
  "findRoot (buildModel (unpack Some [trashRoot] init)) (Some NOVEL) = None \<and>
   checkConsistency classDefaults [''000000000000c''] lostMeta
     (buildModel (unpack Some [trashRoot] init)) ''Recovered'' = Inl AssertionError"
  by code_simp

subsection \<open>Positions in the node layer\<close>

lemma nodeAt_Nil [simp]: "nodeAt p [] = None"
  by (cases p) auto


lemma childrenAt_addChild_same:
  "childrenAt q f = Some cs \<Longrightarrow> childrenAt q (addChild q c f) = Some (cs @ [c])"
  by (induction q arbitrary: f) (auto split: if_splits)



lemma length_addChild: "q \<noteq> [] \<Longrightarrow> length (addChild q c f) = length f"
  by (cases q) auto



lemma allChildren_append: "allChildren (xs @ ys) = allChildren xs @ allChildren ys"
  by (induction xs rule: allChildren.induct) auto


lemma onSpine_valid: "onSpine q f \<Longrightarrow> \<exists>cs. childrenAt q f = Some cs"
proof (induction q arbitrary: f)
  case Nil
  then show ?case by simp
next
  case (Cons i q)
  then have "i < length f" "children (f ! i) = children (last f)"
    by (auto simp: last_conv_nth)
  then show ?case using Cons by auto
qed

lemma addChild_last:
  assumes "f \<noteq> []"
  shows "addChild ((length f - 1) # p) c f =
     butlast f @ [ProjectNode (nodeItem (last f)) (addChild p c (children (last f)))]"
proof -
  obtain xs x where f: "f = xs @ [x]"
    using assms by (cases f rule: rev_exhaust) auto
  show ?thesis
    by (simp add: f)
qed

lemma allChildren_keys_single:
  "map nodeItem (allChildren [ProjectNode k cs]) = k # map nodeItem (allChildren cs)"
  by simp

lemma allChildren_addChild_spine:
  "onSpine q f \<Longrightarrow>
   map nodeItem (allChildren (addChild q c f)) =
     map nodeItem (allChildren f) @ map nodeItem (allChildren [c])"
proof (induction q arbitrary: f)
  case Nil
  then show ?case by (simp add: allChildren_append)
next
  case (Cons i q)
  then have ne: "f \<noteq> []" and i: "i = length f - 1" and sp: "onSpine q (children (last f))"
    by auto
  obtain k ch where l: "last f = ProjectNode k ch" by (cases "last f")
  have f: "f = butlast f @ [ProjectNode k ch]" using ne l by (metis append_butlast_last_id)
  have "map nodeItem (allChildren f) =
        map nodeItem (allChildren (butlast f)) @ k # map nodeItem (allChildren ch)"
    by (subst f) (simp add: allChildren_append)
  moreover have "map nodeItem (allChildren (addChild (i # q) c f)) =
        map nodeItem (allChildren (butlast f)) @ k # map nodeItem (allChildren (addChild q c ch))"
    using addChild_last[OF ne, of q c] i l by (simp add: allChildren_append)
  moreover have "map nodeItem (allChildren (addChild q c ch)) =
        map nodeItem (allChildren ch) @ map nodeItem (allChildren [c])"
    using Cons.IH[of ch] sp l by simp
  ultimately show ?case by simp
qed

lemma onSpine_addChild_new:
  "onSpine q f \<Longrightarrow> childrenAt q f = Some cs \<Longrightarrow> onSpine (q @ [length cs]) (addChild q c f)"
proof (induction q arbitrary: f)
  case Nil
  then show ?case by simp
next
  case (Cons i q)
  then have ne: "f \<noteq> []" and i: "i = length f - 1" and sp: "onSpine q (children (last f))"
    by auto
  have ca: "childrenAt q (children (last f)) = Some cs"
    using Cons.prems(2) ne i by (auto simp: last_conv_nth split: if_splits)
  show ?case
    using addChild_last[OF ne, of q c] i Cons.IH[OF sp ca] by simp
qed

lemma onSpine_addChild_old:
  "onSpine p f \<Longrightarrow> onSpine q f \<Longrightarrow> length p \<le> length q \<Longrightarrow> onSpine p (addChild q c f)"
proof (induction p arbitrary: q f)
  case Nil
  then show ?case by simp
next
  case (Cons i p)
  then obtain j q' where q: "q = j # q'" by (cases q) auto
  from Cons.prems q have ne: "f \<noteq> []" and i: "i = length f - 1" "j = length f - 1"
    and sp: "onSpine p (children (last f))" "onSpine q' (children (last f))" "length p \<le> length q'"
    by auto
  show ?case
    using addChild_last[OF ne, of q' c] i q Cons.IH[OF sp] by simp
qed

subsection \<open>The first pass of the builder\<close>


lemma map_of_dict_set_fresh:
  "k \<notin> fst ` set nd \<Longrightarrow> map_of (dict_set nd k v) h = (if h = k then Some v else map_of nd h)"
  by (simp add: map_of_dict_set)






subsection \<open>Later passes\<close>




subsection \<open>The builder after \<open>unpack\<close>\<close>

lemma dict_set_fresh: "k \<notin> fst ` set d \<Longrightarrow> dict_set d k v = d @ [(k, v)]"
  by (induction d k v rule: dict_set.induct) auto

lemma unpack_loop_entries:
  "distinct (map fst (tree_items s) @ map itemHandle (List.map_filter iu data)) \<Longrightarrow>
   tree_items (unpack_loop iu data s) = tree_items s @ entries (List.map_filter iu data)"
proof (induction data arbitrary: s)
  case Nil
  then show ?case by (simp add: entries_def)
next
  case (Cons r data)
  show ?case
  proof (cases "iu r")
    case None
    then show ?thesis using Cons by simp
  next
    case (Some it)
    then have f: "itemHandle it \<notin> fst ` set (tree_items s)" using Cons.prems by auto
    let ?s = "s\<lparr>tree_items := dict_set (tree_items s) (itemHandle it) it,
               tree_trash := (if itemClass it = TRASH then Some (itemHandle it) else tree_trash s)\<rparr>"
    have "distinct (map fst (tree_items ?s) @ map itemHandle (List.map_filter iu data))"
      using Cons.prems Some f by (simp add: dict_set_fresh)
    from Cons.IH[OF this] show ?thesis using Some f by (simp add: dict_set_fresh entries_def)
  qed
qed

lemma unpack_entries:
  "distinct (map itemHandle (List.map_filter iu data)) \<Longrightarrow>
   tree_items (unpack iu data s) = entries (List.map_filter iu data)"
  using unpack_loop_entries[of "clear s" iu data] by (simp add: unpack_def clear_def)



subsection \<open>Lists in document order\<close>

lemma dropWhile_mem:
  "P \<in> set stack \<Longrightarrow> \<exists>rest. dropWhile (\<lambda>h. h \<noteq> P) stack = P # rest"
  by (induction stack) auto

lemma spineStack_attach:
  assumes sp: "spineStack nd f stack"
    and k: "k \<notin> fst ` set nd"
    and P: "P \<in> set stack" "map_of nd P = Some q"
    and cs: "childrenAt q f = Some cs"
  shows "spineStack (dict_set nd k (q @ [length cs])) (addChild q (ProjectNode k []) f)
           (k # dropWhile (\<lambda>h. h \<noteq> P) stack)"
proof -
  let ?nd' = "dict_set nd k (q @ [length cs])"
  let ?f' = "addChild q (ProjectNode k []) f"
  let ?rest = "dropWhile (\<lambda>h. h \<noteq> P) stack"
  obtain rest' where r: "?rest = P # rest'" using dropWhile_mem[OF P(1)] by blast
  have sub: "set ?rest \<subseteq> set stack" by (rule set_dropWhileD[THEN subsetI])
  have srt: "sorted_wrt (\<lambda>a b. pathLen nd b \<le> pathLen nd a) ?rest"
    using sp unfolding spineStack_def by (simp add: sorted_wrt_dropWhile)
  have qsp: "onSpine q f" using sp P unfolding spineStack_def by auto
  have lenP: "pathLen nd P = length q" using P(2) by (simp add: pathLen_def)
  have le: "\<And>h. h \<in> set ?rest \<Longrightarrow> pathLen nd h \<le> length q"
    using srt r lenP by auto
  have old: "\<And>h. h \<in> set ?rest \<Longrightarrow> h \<noteq> k \<and> (\<exists>p. map_of nd h = Some p \<and> onSpine p f \<and> length p \<le> length q)"
  proof -
    fix h assume h: "h \<in> set ?rest"
    then obtain p where p: "map_of nd h = Some p" "onSpine p f"
      using sp sub unfolding spineStack_def by blast
    then have "h \<in> fst ` set nd" by (metis domI dom_map_of_conv_image_fst)
    then have "h \<noteq> k" using k by auto
    moreover have "length p \<le> length q" using le[OF h] p by (simp add: pathLen_def)
    ultimately show "h \<noteq> k \<and> (\<exists>p. map_of nd h = Some p \<and> onSpine p f \<and> length p \<le> length q)"
      using p by blast
  qed
  have m: "\<And>h. map_of ?nd' h = (if h = k then Some (q @ [length cs]) else map_of nd h)"
    using k by (simp add: map_of_dict_set_fresh)
  have pl: "\<And>h. h \<in> set ?rest \<Longrightarrow> pathLen ?nd' h = pathLen nd h"
    using old m by (simp add: pathLen_def)
  have plk: "pathLen ?nd' k = Suc (length q)" using m by (simp add: pathLen_def)
  have 1: "\<forall>h \<in> set (k # ?rest). \<exists>p. map_of ?nd' h = Some p \<and> onSpine p ?f'"
  proof
    fix h assume "h \<in> set (k # ?rest)"
    then consider "h = k" | "h \<in> set ?rest" by auto
    then show "\<exists>p. map_of ?nd' h = Some p \<and> onSpine p ?f'"
    proof cases
      case 1
      then show ?thesis using m onSpine_addChild_new[OF qsp cs] by simp
    next
      case 2
      then obtain p where "h \<noteq> k" "map_of nd h = Some p" "onSpine p f" "length p \<le> length q"
        using old by blast
      then show ?thesis using m onSpine_addChild_old[OF _ qsp] by simp
    qed
  qed
  have 2: "sorted_wrt (\<lambda>a b. pathLen ?nd' b \<le> pathLen ?nd' a) (k # ?rest)"
  proof -
    have "sorted_wrt (\<lambda>a b. pathLen ?nd' b \<le> pathLen ?nd' a) ?rest"
      by (rule sorted_wrt_mono_rel[OF _ srt]) (simp add: pl)
    moreover have "\<forall>h \<in> set ?rest. pathLen ?nd' h \<le> pathLen ?nd' k"
    proof
      fix h assume h: "h \<in> set ?rest"
      then have "pathLen ?nd' h \<le> length q" using pl[OF h] le[OF h] by simp
      then show "pathLen ?nd' h \<le> pathLen ?nd' k" using plk by simp
    qed
    ultimately show ?thesis by simp
  qed
  show ?thesis unfolding spineStack_def using 1 2 by blast
qed

lemma spineStack_root:
  assumes k: "k \<notin> fst ` set nd"
  shows "spineStack (dict_set nd k ([] @ [length f])) (addChild [] (ProjectNode k []) f) [k]"
proof -
  have "onSpine ([] @ [length f]) (addChild [] (ProjectNode k []) f)"
    by (rule onSpine_addChild_new) simp_all
  then show ?thesis
    using k unfolding spineStack_def by (simp add: map_of_dict_set_fresh)
qed

lemma step_docInv:
  assumes inv: "docInv prev stack (rem, s)"
    and k: "itemHandle x \<notin> itemHandle ` set prev"
    and d: "docOrder stack (x # xs)"
  shows "\<exists>stack' s'. buildTree_step W (itemHandle x, x) (rem, s) = ([], s') \<and>
           tree_items s' = tree_items s \<and>
           docInv (prev @ [x]) stack' ([], s') \<and> docOrder stack' xs"
proof -
  let ?k = "itemHandle x"
  let ?c = "ProjectNode ?k []"
  have rem: "rem = []"
    and keys: "map nodeItem (allChildren (model_root s)) = map itemHandle prev"
    and sp: "spineStack (tree_nodes s) (model_root s) stack"
    and N: "fst ` set (tree_nodes s) \<subseteq> itemHandle ` set prev"
    using inv unfolding docInv_def by auto
  have kfresh: "?k \<notin> fst ` set (tree_nodes s)" using N k by blast
  show ?thesis
  proof (cases "truthy (itemParent x)")
    case None
    then have root: "isRootType x" and d': "docOrder [?k] xs" using d by auto
    let ?s' = "s\<lparr>model_root := addChild [] ?c (model_root s),
                 tree_nodes := dict_set (tree_nodes s) ?k [childCount [] (model_root s)]\<rparr>"
    have st: "buildTree_step W (?k, x) (rem, s) = ([], ?s')"
      using None root rem by simp
    have "map nodeItem (allChildren (addChild [] ?c (model_root s))) = map itemHandle (prev @ [x])"
      using keys by (simp add: allChildren_append)
    moreover have "spineStack (dict_set (tree_nodes s) ?k [childCount [] (model_root s)])
                     (addChild [] ?c (model_root s)) [?k]"
      using spineStack_root[OF kfresh, of "model_root s"] by (simp add: childCount_def)
    moreover have "fst ` set (dict_set (tree_nodes s) ?k [childCount [] (model_root s)])
                     \<subseteq> itemHandle ` set (prev @ [x])"
      using N by (auto simp: keys_dict_set)
    ultimately have "docInv (prev @ [x]) [?k] ([], ?s')"
      unfolding docInv_def by simp
    then show ?thesis using st d' by (intro exI[of _ "[?k]"] exI[of _ ?s']) simp
  next
    case (Some P)
    then have Pin: "P \<in> set stack"
      and d': "docOrder (?k # dropWhile (\<lambda>h. h \<noteq> P) stack) xs" using d by auto
    obtain q where q: "map_of (tree_nodes s) P = Some q" "onSpine q (model_root s)"
      using sp Pin unfolding spineStack_def by blast
    obtain cs where cs: "childrenAt q (model_root s) = Some cs"
      using onSpine_valid[OF q(2)] by blast
    then have cc: "childCount q (model_root s) = length cs" by (simp add: childCount_def)
    let ?s' = "s\<lparr>model_root := addChild q ?c (model_root s),
                 tree_nodes := dict_set (tree_nodes s) ?k (q @ [childCount q (model_root s)])\<rparr>"
    have st: "buildTree_step W (?k, x) (rem, s) = ([], ?s')"
      using Some q rem by simp
    have "map nodeItem (allChildren (addChild q ?c (model_root s))) = map itemHandle (prev @ [x])"
      using keys allChildren_addChild_spine[OF q(2), of ?c] by simp
    moreover have "spineStack (dict_set (tree_nodes s) ?k (q @ [childCount q (model_root s)]))
                     (addChild q ?c (model_root s)) (?k # dropWhile (\<lambda>h. h \<noteq> P) stack)"
      using spineStack_attach[OF sp kfresh Pin q(1) cs] cc by simp
    moreover have "fst ` set (dict_set (tree_nodes s) ?k (q @ [childCount q (model_root s)]))
                     \<subseteq> itemHandle ` set (prev @ [x])"
      using N by (auto simp: keys_dict_set)
    ultimately have "docInv (prev @ [x]) (?k # dropWhile (\<lambda>h. h \<noteq> P) stack) ([], ?s')"
      unfolding docInv_def by simp
    then show ?thesis using st d'
      by (intro exI[of _ "?k # dropWhile (\<lambda>h. h \<noteq> P) stack"] exI[of _ ?s']) simp
  qed
qed

lemma loop_docInv:
  assumes "docInv prev stack (rem, s)"
    and "distinct (map itemHandle (prev @ todo))"
    and "docOrder stack todo"
  shows "\<exists>stack' s'. buildTree_loop W (entries todo) (rem, s) = ([], s') \<and>
           tree_items s' = tree_items s \<and> docInv (prev @ todo) stack' ([], s')"
  using assms
proof (induction todo arbitrary: prev stack rem s)
  case Nil
  then have "rem = []" unfolding docInv_def by simp
  then show ?case using Nil by (auto simp: entries_def)
next
  case (Cons x todo)
  have k: "itemHandle x \<notin> itemHandle ` set prev" using Cons.prems(2) by auto
  from step_docInv[OF Cons.prems(1) k Cons.prems(3), of W]
  obtain stack1 s1 where 1: "buildTree_step W (itemHandle x, x) (rem, s) = ([], s1)"
    "tree_items s1 = tree_items s" "docInv (prev @ [x]) stack1 ([], s1)" "docOrder stack1 todo"
    by blast
  have 2: "distinct (map itemHandle ((prev @ [x]) @ todo))" using Cons.prems(2) by simp
  from Cons.IH[OF 1(3) 2 1(4)]
  obtain stack' s' where "buildTree_loop W (entries todo) ([], s1) = ([], s')"
    "tree_items s' = tree_items s1" "docInv ((prev @ [x]) @ todo) stack' ([], s')" by blast
  then show ?case using 1 by (auto simp: entries_def)
qed

lemma map_filter_all_Some:
  "(\<And>x. x \<in> set xs \<Longrightarrow> f x = Some (g x)) \<Longrightarrow> List.map_filter f xs = map g xs"
  by (induction xs) auto

lemma map_filter_map': "List.map_filter f (map g xs) = List.map_filter (\<lambda>x. f (g x)) xs"
  by (induction xs) (auto split: option.splits)

lemma pack_keys:
  "pack ip s =
     List.map_filter (\<lambda>k. map_option ip (map_of (tree_items s) k))
       (map nodeItem (allChildren (model_root s)))"
  by (simp add: pack_def map_filter_map')

lemma map_of_entries:
  "distinct (map itemHandle its) \<Longrightarrow> x \<in> set its \<Longrightarrow> map_of (entries its) (itemHandle x) = Some x"
proof -
  assume d: "distinct (map itemHandle its)" and x: "x \<in> set its"
  have "map fst (entries its) = map itemHandle its" by (simp add: entries_def comp_def)
  then have "distinct (map fst (entries its))" using d by simp
  moreover have "(itemHandle x, x) \<in> set (entries its)" using x by (auto simp: entries_def)
  ultimately show ?thesis by (rule map_of_is_SomeI)
qed

lemma roundtrip_items:
  "\<forall>r \<in> set data. map_option ip (iu r) = Some r \<Longrightarrow> map ip (List.map_filter iu data) = data"
  by (induction data) (auto split: option.splits)

text \<open>
  Claim C1, as amended. For every record list in document order (every record is accepted
  by \<open>NWItem.unpack\<close> and packed back to itself by \<open>NWItem.pack\<close>, the handles are distinct,
  a record without parent is a root, and any other record is the child of the record
  before it or of one of that record's ancestors), \<open>unpack\<close>, then \<open>buildModel\<close>, then
  \<open>pack\<close> returns the same list. \<open>pack\<close> right after \<open>unpack\<close> returns the empty list.
\<close>

theorem pack_unpack_document_order:
  assumes "\<forall>r \<in> set data. map_option item_pack (item_unpack r) = Some r"
    and "distinct (map itemHandle (List.map_filter item_unpack data))"
    and "docOrder [] (List.map_filter item_unpack data)"
  shows "pack item_pack (buildModel (unpack item_unpack data s)) = data \<and>
         pack item_pack (unpack item_unpack data s) = []"
proof -
  let ?its = "List.map_filter item_unpack data"
  let ?u = "unpack item_unpack data s"
  have it: "tree_items ?u = entries ?its" using assms(2) by (rule unpack_entries)
  have root: "model_root ?u = []" and nodes: "tree_nodes ?u = []"
    by (simp_all add: unpack_def clear_def)
  have "docInv [] [] ([], ?u)"
    by (simp add: docInv_def root nodes spineStack_def)
  from loop_docInv[OF this _ assms(3), of "entries ?its"] assms(2)
  obtain stack' s1 where l: "buildTree_loop (entries ?its) (entries ?its) ([], ?u) = ([], s1)"
    "tree_items s1 = tree_items ?u" "docInv ([] @ ?its) stack' ([], s1)" by auto
  have "buildModel ?u = buildModel_loop (Suc 998) (entries ?its) ?u"
    unfolding buildModel_def it by simp
  also have "\<dots> = s1"
    using l(1) by (simp only: buildModel_loop.simps buildTree_def prod.case) simp
  finally have b: "buildModel ?u = s1" .
  have keys: "map nodeItem (allChildren (model_root s1)) = map itemHandle ?its"
    using l(3) unfolding docInv_def by simp
  have "pack item_pack s1 =
     List.map_filter (\<lambda>k. map_option item_pack (map_of (entries ?its) k)) (map itemHandle ?its)"
    by (simp add: pack_keys keys l(2) it)
  also have "\<dots> = List.map_filter (\<lambda>x. map_option item_pack (map_of (entries ?its) (itemHandle x))) ?its"
    by (rule map_filter_map')
  also have "\<dots> = map item_pack ?its"
    by (rule map_filter_all_Some) (simp add: map_of_entries[OF assms(2)])
  also have "\<dots> = data" using assms(1) by (rule roundtrip_items)
  finally have 1: "pack item_pack (buildModel ?u) = data" using b by simp
  have 2: "pack item_pack ?u = []" by (simp add: pack_def root)
  show ?thesis using 1 2 by simp
qed



theorem pack_unpack_document_order_witness:
  "pack (\<lambda>x. x) (buildModel (unpack Some [novelRoot, chapter1, scene1, scene2, trashRoot] init))
     = [novelRoot, chapter1, scene1, scene2, trashRoot] \<and>
   pack (\<lambda>x. x) (unpack Some [novelRoot, chapter1, scene1, scene2, trashRoot] init) = []"
proof -
  have r: "\<forall>r \<in> set [novelRoot, chapter1, scene1, scene2, trashRoot].
             map_option (\<lambda>x. x) (Some r) = Some r"
    by simp
  have d: "distinct (map itemHandle
             (List.map_filter Some [novelRoot, chapter1, scene1, scene2, trashRoot]))"
    by (simp add: novelRoot_def chapter1_def scene1_def scene2_def trashRoot_def mkItem_def)
  have o: "docOrder []
             (List.map_filter Some [novelRoot, chapter1, scene1, scene2, trashRoot])"
    by (simp add: novelRoot_def chapter1_def scene1_def scene2_def trashRoot_def mkItem_def
        truthy_def isRootType_def)
  show ?thesis
    by (rule pack_unpack_document_order[OF r d o])
qed

text \<open>
  Claim C1 as stated fails: \<open>pack\<close> after \<open>unpack\<close> returns the empty list, since \<open>unpack\<close>
  fills the store only and \<open>pack\<close> reads the node layer; and with \<open>buildModel\<close> between
  them, a list that is not in document order comes back in document order.
\<close>

theorem pack_unpack_counterexample:
  "pack (\<lambda>x. x) (unpack Some [novelRoot] init) = [] \<and>
   pack (\<lambda>x. x) (buildModel (unpack Some [novelRoot, trashRoot, chapter1] init))
     = [novelRoot, chapter1, trashRoot]"
  by code_simp

end
